theory Spec2Isabelle
  imports Main
begin

section \<open>The DTLS listener of net/dtlslistener.go\<close>

text \<open>
  The file wraps a blocking transport listener. A background goroutine (\<open>acceptLoop\<close>)
  calls the transport's accept and hands every outcome over the unbuffered channel
  \<open>connCh\<close>; the methods \<open>Accept\<close>, \<open>AcceptWithContext\<close>, \<open>SetDeadline\<close> and \<open>Close\<close> run on
  the caller's goroutine. The embedding keeps the sequential code of each method as a HOL
  function and puts the two goroutines, the clock, the context and the transport together
  in a labelled step function: one event is one scheduling decision of the Go runtime or
  one answer of a collaborator. A \<open>select\<close> with several ready cases may take any of
  them, so each case is an event of its own, enabled when the case is ready. There is one
  calling goroutine; the code between two blocking points runs as one step and reads the
  clock once.
\<close>

subsection \<open>Errors, connections, instants\<close>

text \<open>
  Error values by where they are built: \<open>fmt.Errorf(ioTimeout)\<close> of line 126, an
  \<open>fmt.Errorf("<prefix>: %v", err)\<close> around another error, and errors that come from a
  collaborator (the transport listener, the context), named by their message.
\<close>

datatype error =
    Errorf_ioTimeout
  | Errorf string error
  | Foreign string

definition cannot_accept :: string where
  "cannot_accept = ''cannot accept connections''"

definition cannot_resolve :: string where
  "cannot_resolve = ''cannot resolve address''"

definition cannot_create :: string where
  "cannot_create = ''cannot create new dtls listener''"

text \<open>A \<open>net.Conn\<close> of the transport is an identifier; \<open>NewConnDTLS\<close> wraps it.\<close>

type_synonym Conn = nat

datatype ConnDTLS = NewConnDTLS "Conn option"

record connData =
  conn :: "Conn option"
  err :: "error option"

text \<open>
  A \<open>time.Time\<close> is the distance in nanoseconds from the zero instant, a
  \<open>time.Duration\<close> a signed 64-bit count of nanoseconds; \<open>Time.Sub\<close> saturates.
\<close>

type_synonym time = int
type_synonym duration = int

definition Millisecond :: duration where
  "Millisecond = 1000000"

definition minDuration :: duration where
  "minDuration = - (2 ^ 63)"

definition maxDuration :: duration where
  "maxDuration = 2 ^ 63 - 1"

definition IsZero :: "time \<Rightarrow> bool" where
  "IsZero t = (t = 0)"

definition Add :: "time \<Rightarrow> duration \<Rightarrow> time" where
  "Add t d = t + d"

definition Sub :: "time \<Rightarrow> time \<Rightarrow> duration" where
  "Sub t u =
     (let d = t - u
      in if d < minDuration then minDuration
         else if maxDuration < d then maxDuration
         else d)"

subsection \<open>The listener handle and its constructor\<close>

text \<open>
  \<open>doneCh\<close> is \<open>True\<close> once the channel is closed; \<open>deadline\<close> is the \<open>atomic.Value\<close>,
  \<open>None\<close> until the first \<open>Store\<close>; \<open>wg\<close> is the counter of the \<open>WaitGroup\<close>. The channel
  \<open>connCh\<close> has no buffer and so no state: a send and a receive happen in one step.
\<close>

record DTLSListener =
  heartBeat :: duration
  wg :: nat
  doneCh :: bool
  deadline :: "time option"

definition NewDTLSListener ::
  "error option \<Rightarrow> error option \<Rightarrow> duration \<Rightarrow> error + DTLSListener" where
  "NewDTLSListener resolveErr listenErr hb =
     (case resolveErr of
        Some e \<Rightarrow> Inl (Errorf cannot_resolve e)
      | None \<Rightarrow>
          (case listenErr of
             Some e \<Rightarrow> Inl (Errorf cannot_create e)
           | None \<Rightarrow> Inr \<lparr>heartBeat = hb, wg = 1, doneCh = False, deadline = None\<rparr>))"

subsection \<open>Control points of the two goroutines\<close>

text \<open>
  \<open>acceptLoop\<close>: at the head of the loop, blocked in \<open>l.listener.Accept()\<close> (line 33),
  blocked in the \<open>select\<close> of line 34 with an outcome in hand, or returned.
\<close>

datatype pump_pc =
    Pump_loop
  | Pump_accept
  | Pump_select connData
  | Pump_exit

text \<open>What a method returned.\<close>

datatype retval =
    AcceptRet "ConnDTLS option" "error option"
  | AcceptWithContextRet "ConnDTLS option" "error option"
  | SetDeadlineRet "error option"
  | CloseRet "error option"

text \<open>\<open>Accept\<close> is called by the user or from line 84 of \<open>AcceptWithContext\<close>.\<close>

datatype frame = Direct | In_AcceptWithContext

text \<open>
  The caller's goroutine: between calls; at the head of the loop of \<open>AcceptWithContext\<close>
  (line 72); blocked in the one-case \<open>select\<close> of \<open>Accept\<close> (line 110); blocked in the
  two-case \<open>select\<close> (line 119) with the instant its timer fires; inside
  \<open>l.listener.Close\<close> (line 132); blocked in \<open>l.wg.Wait()\<close> (line 134) holding \<open>err\<close>;
  returned; or panicked.
\<close>

datatype caller_pc =
    Idle
  | AWC_loop
  | Accept_recv frame
  | Accept_race time frame
  | Close_listener
  | Close_wait "error option"
  | Returned retval
  | Panicked

datatype call = CallAccept | CallAcceptWithContext | CallSetDeadline time | CallClose

subsection \<open>The sequential code of the methods\<close>

text \<open>Lines 96-99.\<close>

definition SetDeadline :: "time \<Rightarrow> DTLSListener \<Rightarrow> DTLSListener \<times> error option" where
  "SetDeadline t l = (l\<lparr>deadline := Some t\<rparr>, None)"

text \<open>
  \<open>Accept\<close>, lines 103-109 and the timer of line 125: load the deadline, and block in the
  first \<open>select\<close> when it is the zero instant, in the second otherwise, its timer armed
  with \<open>deadline.Sub(time.Now())\<close>.
\<close>

definition Accept_enter :: "time \<Rightarrow> DTLSListener \<Rightarrow> frame \<Rightarrow> caller_pc" where
  "Accept_enter nw l f =
     (let dl = (case deadline l of None \<Rightarrow> 0 | Some v \<Rightarrow> v)
      in if IsZero dl then Accept_recv f
         else Accept_race (Add nw (Sub dl nw)) f)"

text \<open>Lines 111-115 and 120-124: the channel case of either \<open>select\<close>.\<close>

definition Accept_received :: "connData \<Rightarrow> ConnDTLS option \<times> error option" where
  "Accept_received d =
     (if err d \<noteq> None then (None, err d)
      else (Some (NewConnDTLS (conn d)), None))"

text \<open>Lines 125-126: the timer case.\<close>

definition Accept_timeout :: "ConnDTLS option \<times> error option" where
  "Accept_timeout = (None, Some Errorf_ioTimeout)"

text \<open>
  \<open>AcceptWithContext\<close>, lines 85-91, on the result of \<open>l.Accept()\<close>; \<open>isTemporary\<close> is
  declared in another file of the package and is a parameter.
\<close>

definition AcceptWithContext_after ::
  "(error \<Rightarrow> bool) \<Rightarrow> ConnDTLS option \<times> error option \<Rightarrow> caller_pc" where
  "AcceptWithContext_after isTemporary r =
     (case snd r of
        Some e \<Rightarrow>
          if isTemporary e then AWC_loop
          else Returned (AcceptWithContextRet None (Some (Errorf cannot_accept e)))
      | None \<Rightarrow> Returned (AcceptWithContextRet (fst r) None))"

definition Accept_return ::
  "(error \<Rightarrow> bool) \<Rightarrow> frame \<Rightarrow> ConnDTLS option \<times> error option \<Rightarrow> caller_pc" where
  "Accept_return isTemporary f r =
     (case f of
        Direct \<Rightarrow> Returned (AcceptRet (fst r) (snd r))
      | In_AcceptWithContext \<Rightarrow> AcceptWithContext_after isTemporary r)"

text \<open>\<open>acceptLoop\<close>, lines 35-38: after the send, return on an error, loop otherwise.\<close>

definition acceptLoop_sent :: "connData \<Rightarrow> pump_pc" where
  "acceptLoop_sent d = (if err d \<noteq> None then Pump_exit else Pump_loop)"

subsection \<open>The system\<close>

text \<open>
  The handle, the clock, the context passed to \<open>AcceptWithContext\<close> (\<open>ctxDone\<close>: its
  \<open>Done()\<close> channel is closed; \<open>ctxErr\<close>: what \<open>Err()\<close> returns) and both goroutines. The
  remaining fields are history: how often the transport's accept was called, its outcomes
  in order, the outcomes sent on \<open>connCh\<close>, the outcomes given up on the done-signal, the
  grace periods handed to the transport's close and what it returned.
\<close>

record config =
  lst :: DTLSListener
  now :: time
  ctxDone :: bool
  ctxErr :: "error option"
  pump :: pump_pc
  caller :: caller_pc
  acceptCalls :: nat
  accepted :: "connData list"
  sent :: "connData list"
  abandoned :: "connData list"
  closeCalls :: "duration list"
  closeRets :: "error option list"

text \<open>Right after the constructor returned \<open>l\<close> at instant \<open>t0\<close> (lines 62-66).\<close>

definition spawn :: "DTLSListener \<Rightarrow> time \<Rightarrow> config" where
  "spawn l t0 =
     \<lparr>lst = l, now = t0, ctxDone = False, ctxErr = None,
      pump = Pump_loop, caller = Idle,
      acceptCalls = 0, accepted = [], sent = [], abandoned = [],
      closeCalls = [], closeRets = []\<rparr>"

datatype event =
    Tick nat
  | Ctx_fires "string option"
  | Call call
  | AWC_iterate
  | Chan_handoff
  | Timer_fires
  | Listener_close_returns "string option"
  | Wait_returns
  | Pump_calls_accept
  | Listener_accept_returns "Conn option" "string option"
  | Pump_sees_done

definition idle :: "caller_pc \<Rightarrow> bool" where
  "idle c = (case c of Idle \<Rightarrow> True | Returned r \<Rightarrow> True | _ \<Rightarrow> False)"

text \<open>
  A call from the idle caller. \<open>SetDeadline\<close> runs to its end; \<open>Accept\<close> runs to its
  \<open>select\<close>; \<open>AcceptWithContext\<close> reaches the head of its loop; \<open>Close\<close> enters
  \<open>l.listener.Close(time.Millisecond * 100)\<close>.
\<close>

definition do_call :: "call \<Rightarrow> config \<Rightarrow> config option" where
  "do_call c s =
     (if \<not> idle (caller s) then None
      else case c of
        CallSetDeadline t \<Rightarrow>
          (let (l', e) = SetDeadline t (lst s)
           in Some (s\<lparr>lst := l', caller := Returned (SetDeadlineRet e)\<rparr>))
      | CallAccept \<Rightarrow> Some (s\<lparr>caller := Accept_enter (now s) (lst s) Direct\<rparr>)
      | CallAcceptWithContext \<Rightarrow> Some (s\<lparr>caller := AWC_loop\<rparr>)
      | CallClose \<Rightarrow>
          Some (s\<lparr>caller := Close_listener,
                  closeCalls := closeCalls s @ [Millisecond * 100]\<rparr>))"

text \<open>
  One pass through lines 72-84 of \<open>AcceptWithContext\<close>: the \<open>select\<close> with \<open>default\<close> on
  \<open>ctx.Done()\<close>, then \<open>SetDeadline(time.Now().Add(l.heartBeat))\<close>, then the call of
  \<open>Accept\<close> up to its \<open>select\<close>.
\<close>

definition do_AWC_iterate :: "config \<Rightarrow> config option" where
  "do_AWC_iterate s =
     (if caller s \<noteq> AWC_loop then None
      else if ctxDone s then
        (case ctxErr s of
           Some e \<Rightarrow>
             Some (s\<lparr>caller := Returned (AcceptWithContextRet None (Some (Errorf cannot_accept e)))\<rparr>)
         | None \<Rightarrow> Some (s\<lparr>caller := Returned (AcceptWithContextRet None None)\<rparr>))
      else
        (let (l', e) = SetDeadline (Add (now s) (heartBeat (lst s))) (lst s)
         in case e of
              Some x \<Rightarrow>
                Some (s\<lparr>lst := l',
                        caller := Returned (AcceptWithContextRet None (Some (Errorf cannot_accept x)))\<rparr>)
            | None \<Rightarrow>
                Some (s\<lparr>lst := l', caller := Accept_enter (now s) l' In_AcceptWithContext\<rparr>)))"

text \<open>
  The rendezvous on \<open>connCh\<close>: the pump's \<open>select\<close> takes its send case (line 35) and a
  \<open>select\<close> of \<open>Accept\<close> takes its receive case, in one step. The pump returns through
  its deferred \<open>l.wg.Done()\<close> when the outcome was an error.
\<close>

definition pump_leave :: "pump_pc \<Rightarrow> DTLSListener \<Rightarrow> DTLSListener" where
  "pump_leave p l = (if p = Pump_exit then l\<lparr>wg := wg l - 1\<rparr> else l)"

definition do_handoff :: "(error \<Rightarrow> bool) \<Rightarrow> config \<Rightarrow> config option" where
  "do_handoff isTemporary s =
     (case pump s of
        Pump_select d \<Rightarrow>
          (case caller s of
             Accept_recv f \<Rightarrow>
               Some (s\<lparr>lst := pump_leave (acceptLoop_sent d) (lst s),
                       pump := acceptLoop_sent d,
                       caller := Accept_return isTemporary f (Accept_received d),
                       sent := sent s @ [d]\<rparr>)
           | Accept_race t f \<Rightarrow>
               Some (s\<lparr>lst := pump_leave (acceptLoop_sent d) (lst s),
                       pump := acceptLoop_sent d,
                       caller := Accept_return isTemporary f (Accept_received d),
                       sent := sent s @ [d]\<rparr>)
           | _ \<Rightarrow> None)
      | _ \<Rightarrow> None)"

text \<open>The timer case of line 125 is ready once the clock has reached the timer's instant.\<close>

definition do_timer :: "(error \<Rightarrow> bool) \<Rightarrow> config \<Rightarrow> config option" where
  "do_timer isTemporary s =
     (case caller s of
        Accept_race t f \<Rightarrow>
          if t \<le> now s
          then Some (s\<lparr>caller := Accept_return isTemporary f Accept_timeout\<rparr>)
          else None
      | _ \<Rightarrow> None)"

text \<open>
  \<open>Close\<close>, lines 132-133: the transport's close returns \<open>e\<close>; then \<open>close(l.doneCh)\<close>,
  which panics on a closed channel.
\<close>

definition do_close_returns :: "error option \<Rightarrow> config \<Rightarrow> config option" where
  "do_close_returns e s =
     (if caller s \<noteq> Close_listener then None
      else if doneCh (lst s)
      then Some (s\<lparr>caller := Panicked, closeRets := closeRets s @ [e]\<rparr>)
      else Some (s\<lparr>lst := (lst s)\<lparr>doneCh := True\<rparr>,
                   caller := Close_wait e,
                   closeRets := closeRets s @ [e]\<rparr>))"

text \<open>\<open>Close\<close>, lines 134-135: \<open>l.wg.Wait()\<close> returns when the counter is zero.\<close>

definition do_wait_returns :: "config \<Rightarrow> config option" where
  "do_wait_returns s =
     (case caller s of
        Close_wait e \<Rightarrow>
          if wg (lst s) = 0 then Some (s\<lparr>caller := Returned (CloseRet e)\<rparr>) else None
      | _ \<Rightarrow> None)"

text \<open>\<open>acceptLoop\<close>, line 33: the call of the transport's accept, and its return.\<close>

definition do_pump_calls :: "config \<Rightarrow> config option" where
  "do_pump_calls s =
     (if pump s = Pump_loop
      then Some (s\<lparr>pump := Pump_accept, acceptCalls := Suc (acceptCalls s)\<rparr>)
      else None)"

definition do_accept_returns :: "connData \<Rightarrow> config \<Rightarrow> config option" where
  "do_accept_returns d s =
     (if pump s = Pump_accept
      then Some (s\<lparr>pump := Pump_select d, accepted := accepted s @ [d]\<rparr>)
      else None)"

text \<open>\<open>acceptLoop\<close>, lines 39-40: the receive from the closed \<open>doneCh\<close>.\<close>

definition do_pump_done :: "config \<Rightarrow> config option" where
  "do_pump_done s =
     (case pump s of
        Pump_select d \<Rightarrow>
          if doneCh (lst s)
          then Some (s\<lparr>lst := pump_leave Pump_exit (lst s),
                       pump := Pump_exit,
                       abandoned := abandoned s @ [d]\<rparr>)
          else None
      | _ \<Rightarrow> None)"

text \<open>The clock moves on; the context fires once, with the value \<open>ctx.Err()\<close> then has.\<close>

definition do_tick :: "nat \<Rightarrow> config \<Rightarrow> config option" where
  "do_tick n s = Some (s\<lparr>now := now s + int n\<rparr>)"

definition do_ctx_fires :: "error option \<Rightarrow> config \<Rightarrow> config option" where
  "do_ctx_fires e s =
     (if ctxDone s then None else Some (s\<lparr>ctxDone := True, ctxErr := e\<rparr>))"

fun fire :: "(error \<Rightarrow> bool) \<Rightarrow> event \<Rightarrow> config \<Rightarrow> config option" where
  "fire isTemporary (Tick n) s = do_tick n s"
| "fire isTemporary (Ctx_fires m) s = do_ctx_fires (map_option Foreign m) s"
| "fire isTemporary (Call c) s = do_call c s"
| "fire isTemporary AWC_iterate s = do_AWC_iterate s"
| "fire isTemporary Chan_handoff s = do_handoff isTemporary s"
| "fire isTemporary Timer_fires s = do_timer isTemporary s"
| "fire isTemporary (Listener_close_returns m) s = do_close_returns (map_option Foreign m) s"
| "fire isTemporary Wait_returns s = do_wait_returns s"
| "fire isTemporary Pump_calls_accept s = do_pump_calls s"
| "fire isTemporary (Listener_accept_returns c m) s =
     do_accept_returns \<lparr>conn = c, err = map_option Foreign m\<rparr> s"
| "fire isTemporary Pump_sees_done s = do_pump_done s"

text \<open>A panic of the caller ends the program: nothing runs after it.\<close>

definition step :: "(error \<Rightarrow> bool) \<Rightarrow> event \<Rightarrow> config \<Rightarrow> config option" where
  "step isTemporary ev s = (if caller s = Panicked then None else fire isTemporary ev s)"

fun run :: "(error \<Rightarrow> bool) \<Rightarrow> event list \<Rightarrow> config \<Rightarrow> config option" where
  "run isTemporary [] s = Some s"
| "run isTemporary (ev # evs) s =
     (case step isTemporary ev s of
        None \<Rightarrow> None
      | Some s' \<Rightarrow> run isTemporary evs s')"

subsection \<open>Invariants of the reachable configurations\<close>

text \<open>
  The pump's bookkeeping: the \<open>WaitGroup\<close> counter is 1 until the pump has returned; every
  outcome of the transport's accept was sent, given up on the done-signal, or is in hand
  at the \<open>select\<close>; the accept was called once per outcome and once more while the pump is
  blocked in it; only the last outcome sent can be an error; at most one outcome is given
  up, and none after an error was sent; and the pump has returned exactly when it gave an
  outcome up or sent an error.
\<close>

definition pump_ok :: "nat \<Rightarrow> pump_pc \<Rightarrow> nat \<Rightarrow> connData list \<Rightarrow> connData list \<Rightarrow> connData list \<Rightarrow> bool" where
  "pump_ok w p n acc snt ab =
     (w = (if p = Pump_exit then 0 else 1) \<and>
      acc = snt @ ab @ (case p of Pump_select d \<Rightarrow> [d] | _ \<Rightarrow> []) \<and>
      n = length acc + (if p = Pump_accept then 1 else 0) \<and>
      list_all (\<lambda>d. err d = None) (butlast snt) \<and>
      length ab \<le> 1 \<and>
      (ab \<noteq> [] \<longrightarrow> list_all (\<lambda>d. err d = None) snt) \<and>
      (p = Pump_exit) = (ab \<noteq> [] \<or> (snt \<noteq> [] \<and> err (last snt) \<noteq> None)))"

definition pump_inv :: "config \<Rightarrow> bool" where
  "pump_inv s = pump_ok (wg (lst s)) (pump s) (acceptCalls s) (accepted s) (sent s) (abandoned s)"

text \<open>Errors in the outcomes of the transport's accept are the transport's own.\<close>

definition foreign_err :: "error option \<Rightarrow> bool" where
  "foreign_err e = (case e of None \<Rightarrow> True | Some (Foreign m) \<Rightarrow> True | Some _ \<Rightarrow> False)"

definition foreign_inv :: "config \<Rightarrow> bool" where
  "foreign_inv s = list_all (\<lambda>d. foreign_err (err d)) (accepted s)"

text \<open>
  The bookkeeping of \<open>Close\<close>: the transport's close was called once per return and once
  more while the caller is inside it, always with 100 milliseconds; the done-signal is
  closed exactly when a transport close has returned, which short of a panic happened at
  most once; and a \<open>Close\<close> that waits or has returned holds the error of that return, the
  \<open>WaitGroup\<close> counter being zero when it has returned.
\<close>

definition close_ok ::
  "caller_pc \<Rightarrow> nat \<Rightarrow> bool \<Rightarrow> duration list \<Rightarrow> error option list \<Rightarrow> bool" where
  "close_ok c w dn calls rets =
     (length calls = length rets + (if c = Close_listener then 1 else 0) \<and>
      list_all (\<lambda>g. g = Millisecond * 100) calls \<and>
      dn = (rets \<noteq> []) \<and>
      (c \<noteq> Panicked \<longrightarrow> length rets \<le> 1) \<and>
      (case c of
         Close_wait e \<Rightarrow> rets \<noteq> [] \<and> last rets = e
       | Returned r \<Rightarrow>
           (case r of
              CloseRet e \<Rightarrow> w = 0 \<and> rets \<noteq> [] \<and> last rets = e
            | _ \<Rightarrow> True)
       | _ \<Rightarrow> True))"

definition close_inv :: "config \<Rightarrow> bool" where
  "close_inv s =
     close_ok (caller s) (wg (lst s)) (doneCh (lst s)) (closeCalls s) (closeRets s)"

definition in_close :: "caller_pc \<Rightarrow> bool" where
  "in_close c =
     (case c of
        Close_listener \<Rightarrow> True
      | Close_wait e \<Rightarrow> True
      | Returned r \<Rightarrow> (case r of CloseRet e \<Rightarrow> True | _ \<Rightarrow> False)
      | _ \<Rightarrow> False)"

text \<open>A caller inside the transport's close, or panicked, with the done-signal closed.\<close>

definition stuck :: "config \<Rightarrow> bool" where
  "stuck s = (doneCh (lst s) \<and> (caller s = Close_listener \<or> caller s = Panicked))"

text \<open>
  A classifier for running examples: it takes the timeout of \<open>Accept\<close> as temporary and
  every other error as fatal.
\<close>

definition timeout_is_temporary :: "error \<Rightarrow> bool" where
  "timeout_is_temporary e = (e = Errorf_ioTimeout)"

text \<open>
  An error returned by \<open>AcceptWithContext\<close> comes without a connection and is
  \<open>fmt.Errorf("cannot accept connections: %v", y)\<close>, where \<open>y\<close> is not temporary or is the
  cause of the fired context.
\<close>

definition awc_ok :: "(error \<Rightarrow> bool) \<Rightarrow> caller_pc \<Rightarrow> bool \<Rightarrow> error option \<Rightarrow> bool" where
  "awc_ok isTemporary c dn ce =
     (case c of
        Returned r \<Rightarrow>
          (case r of
             AcceptWithContextRet cn e \<Rightarrow>
               (case e of
                  None \<Rightarrow> True
                | Some x \<Rightarrow>
                    cn = None \<and>
                    (case x of
                       Errorf p y \<Rightarrow>
                         p = cannot_accept \<and> (\<not> isTemporary y \<or> (dn \<and> ce = Some y))
                     | _ \<Rightarrow> False))
           | _ \<Rightarrow> True)
      | _ \<Rightarrow> True)"


text \<open>
  Events other than a call: what happens while the caller is inside one method.
\<close>

definition no_call :: "event \<Rightarrow> bool" where
  "no_call ev = (case ev of Call c \<Rightarrow> False | _ \<Rightarrow> True)"

text \<open>
  What \<open>Accept\<close> returns to the user on the channel case, and the path of an \<open>Accept\<close>
  without deadline: blocked in the one-case \<open>select\<close>, or returned with the outcome sent
  last.
\<close>

definition Accept_result :: "connData \<Rightarrow> caller_pc" where
  "Accept_result d = Returned (AcceptRet (fst (Accept_received d)) (snd (Accept_received d)))"

definition recv_path :: "config \<Rightarrow> bool" where
  "recv_path s =
     (caller s = Accept_recv Direct \<or>
      (sent s \<noteq> [] \<and> caller s = Accept_result (last (sent s))))"

text \<open>
  The path of an \<open>Accept\<close> that entered its \<open>select\<close> at \<open>c0\<close> after the pump returned:
  nothing more is sent, and the call is still there or, from the two-case \<open>select\<close>, has
  returned the timeout error.
\<close>

definition after_exit :: "caller_pc \<Rightarrow> connData list \<Rightarrow> config \<Rightarrow> bool" where
  "after_exit c0 snt s =
     (pump s = Pump_exit \<and> sent s = snt \<and>
      (caller s = c0 \<or>
       (case c0 of
          Accept_race t f \<Rightarrow> caller s = Returned (AcceptRet None (Some Errorf_ioTimeout))
        | _ \<Rightarrow> False)))"

text \<open>
  Events that do not run \<open>SetDeadline\<close>: all but the call itself and the iteration of
  \<open>AcceptWithContext\<close>.
\<close>

definition keeps_deadline :: "event \<Rightarrow> bool" where
  "keeps_deadline ev =
     (case ev of
        Call c \<Rightarrow> (case c of CallSetDeadline t \<Rightarrow> False | _ \<Rightarrow> True)
      | AWC_iterate \<Rightarrow> False
      | _ \<Rightarrow> True)"

text \<open>
  The path of an \<open>Accept\<close> whose timer instant \<open>t\<close> has passed: the stored deadline is
  unchanged, and the call is in the two-case \<open>select\<close> with the timer ready, or returned
  the timeout error, or returned the outcome sent last.
\<close>

definition past_deadline :: "time option \<Rightarrow> time \<Rightarrow> config \<Rightarrow> bool" where
  "past_deadline dl t s =
     (deadline (lst s) = dl \<and>
      ((caller s = Accept_race t Direct \<and> t \<le> now s) \<or>
       caller s = Returned (AcceptRet None (Some Errorf_ioTimeout)) \<or>
       (sent s \<noteq> [] \<and> caller s = Accept_result (last (sent s)))))"

section \<open>The pump's invariant\<close>

lemma pump_inv_spawn: "NewDTLSListener r b hb = Inr l \<Longrightarrow> pump_inv (spawn l t0)"
  by (auto simp: NewDTLSListener_def spawn_def pump_inv_def pump_ok_def split: option.splits)

lemma pump_inv_tick: "do_tick n s = Some s' \<Longrightarrow> pump_inv s \<Longrightarrow> pump_inv s'"
  by (auto simp: do_tick_def pump_inv_def)

lemma pump_inv_ctx: "do_ctx_fires e s = Some s' \<Longrightarrow> pump_inv s \<Longrightarrow> pump_inv s'"
  by (auto simp: do_ctx_fires_def pump_inv_def split: if_splits)

lemma pump_inv_call: "do_call c s = Some s' \<Longrightarrow> pump_inv s \<Longrightarrow> pump_inv s'"
  by (cases c) (auto simp: do_call_def pump_inv_def SetDeadline_def split: if_splits)

lemma pump_inv_awc: "do_AWC_iterate s = Some s' \<Longrightarrow> pump_inv s \<Longrightarrow> pump_inv s'"
  by (auto simp: do_AWC_iterate_def pump_inv_def SetDeadline_def split: if_splits option.splits)

lemma pump_inv_timer: "do_timer isT s = Some s' \<Longrightarrow> pump_inv s \<Longrightarrow> pump_inv s'"
  by (auto simp: do_timer_def pump_inv_def split: if_splits caller_pc.splits)

lemma pump_inv_close: "do_close_returns e s = Some s' \<Longrightarrow> pump_inv s \<Longrightarrow> pump_inv s'"
  by (auto simp: do_close_returns_def pump_inv_def split: if_splits)

lemma pump_inv_wait: "do_wait_returns s = Some s' \<Longrightarrow> pump_inv s \<Longrightarrow> pump_inv s'"
  by (auto simp: do_wait_returns_def pump_inv_def split: if_splits caller_pc.splits)

lemma pump_ok_call:
  "pump_ok w Pump_loop n acc snt ab \<Longrightarrow> pump_ok w Pump_accept (Suc n) acc snt ab"
  by (auto simp: pump_ok_def)

lemma pump_ok_ret:
  "pump_ok w Pump_accept n acc snt ab \<Longrightarrow> pump_ok w (Pump_select d) n (acc @ [d]) snt ab"
  by (auto simp: pump_ok_def)

lemma pump_ok_done:
  "pump_ok w (Pump_select d) n acc snt ab \<Longrightarrow> pump_ok (w - 1) Pump_exit n acc snt (ab @ [d])"
  by (cases snt rule: rev_cases) (auto simp: pump_ok_def butlast_append)

lemma pump_ok_sent_err:
  "pump_ok w (Pump_select d) n acc snt ab \<Longrightarrow> err d = Some e \<Longrightarrow>
   pump_ok (w - Suc 0) Pump_exit n acc (snt @ [d]) ab"
  by (cases snt rule: rev_cases) (auto simp: pump_ok_def butlast_append)

lemma pump_ok_sent_conn:
  "pump_ok w (Pump_select d) n acc snt ab \<Longrightarrow> err d = None \<Longrightarrow>
   pump_ok w Pump_loop n acc (snt @ [d]) ab"
  by (cases snt rule: rev_cases) (auto simp: pump_ok_def butlast_append)

lemma pump_inv_pcall: "do_pump_calls s = Some s' \<Longrightarrow> pump_inv s \<Longrightarrow> pump_inv s'"
  by (auto simp: do_pump_calls_def pump_inv_def split: if_splits dest: pump_ok_call)

lemma pump_inv_pret: "do_accept_returns d s = Some s' \<Longrightarrow> pump_inv s \<Longrightarrow> pump_inv s'"
  by (auto simp: do_accept_returns_def pump_inv_def split: if_splits dest: pump_ok_ret)

lemma pump_inv_pdone: "do_pump_done s = Some s' \<Longrightarrow> pump_inv s \<Longrightarrow> pump_inv s'"
  by (auto simp: do_pump_done_def pump_inv_def pump_leave_def split: if_splits pump_pc.splits dest: pump_ok_done)

lemma pump_inv_handoff: "do_handoff isT s = Some s' \<Longrightarrow> pump_inv s \<Longrightarrow> pump_inv s'"
  by (auto simp: do_handoff_def pump_inv_def pump_leave_def acceptLoop_sent_def
      split: pump_pc.splits caller_pc.splits intro: pump_ok_sent_err pump_ok_sent_conn)

lemma pump_inv_step: "step isT ev s = Some s' \<Longrightarrow> pump_inv s \<Longrightarrow> pump_inv s'"
  by (cases ev)
     (auto simp: step_def split: if_splits
       intro: pump_inv_tick pump_inv_ctx pump_inv_call pump_inv_awc pump_inv_timer pump_inv_close
              pump_inv_wait pump_inv_pcall pump_inv_pret pump_inv_pdone pump_inv_handoff)

lemma pump_inv_run: "run isT evs s = Some s' \<Longrightarrow> pump_inv s \<Longrightarrow> pump_inv s'"
  by (induction evs arbitrary: s) (auto split: option.splits intro: pump_inv_step)

lemma foreign_err_map [simp]: "foreign_err (map_option Foreign m)"
  by (cases m) (auto simp: foreign_err_def)

lemma foreign_inv_fire: "fire isT ev s = Some s' \<Longrightarrow> foreign_inv s \<Longrightarrow> foreign_inv s'"
  by (cases ev)
     (auto simp: foreign_inv_def do_tick_def do_ctx_fires_def do_call_def do_AWC_iterate_def
        do_handoff_def do_timer_def do_close_returns_def do_wait_returns_def do_pump_calls_def
        do_accept_returns_def do_pump_done_def SetDeadline_def
        split: if_splits option.splits pump_pc.splits caller_pc.splits call.splits)

lemma foreign_inv_run: "run isT evs s = Some s' \<Longrightarrow> foreign_inv s \<Longrightarrow> foreign_inv s'"
  by (induction evs arbitrary: s) (auto simp: step_def split: option.splits if_splits intro: foreign_inv_fire)


text \<open>Unfolding the step function on a concrete run.\<close>

lemmas exec_simps = step_def do_tick_def do_ctx_fires_def do_call_def do_AWC_iterate_def
  do_handoff_def do_timer_def do_close_returns_def do_wait_returns_def do_pump_calls_def
  do_accept_returns_def do_pump_done_def SetDeadline_def spawn_def idle_def
  Accept_enter_def Accept_received_def Accept_timeout_def Accept_return_def
  AcceptWithContext_after_def acceptLoop_sent_def pump_leave_def IsZero_def Add_def Sub_def
  minDuration_def maxDuration_def Millisecond_def

lemma pump_ok_error_sent:
  assumes "pump_ok w p n acc snt ab"
  shows "list_ex (\<lambda>d. err d \<noteq> None) snt \<longrightarrow>
           p = Pump_exit \<and> err (last snt) \<noteq> None \<and> acc = snt \<and> n = length snt"
proof (cases snt rule: rev_cases)
  case Nil
  then show ?thesis by simp
next
  case (snoc ys y)
  show ?thesis
  proof (cases "err y")
    case None
    with snoc assms show ?thesis
      by (auto simp: pump_ok_def list_all_iff list_ex_iff)
  next
    case (Some e)
    with snoc assms have "p = Pump_exit" "ab = []"
      by (auto simp: pump_ok_def list_all_iff)
    with snoc Some assms show ?thesis
      by (auto simp: pump_ok_def)
  qed
qed

section \<open>The background accept pump\<close>



section \<open>SetDeadline\<close>

text \<open>
  C8: for every instant \<open>t\<close>, \<open>SetDeadline t\<close> returns a nil error; it changes the handle
  only in the stored deadline, which becomes \<open>t\<close>, and a following \<open>Accept\<close> reads that
  value at its entry.
\<close>

theorem SetDeadline_never_fails:
  assumes "idle (caller s)"
  shows "snd (SetDeadline t l) = None \<and>
         fst (SetDeadline t l) = l\<lparr>deadline := Some t\<rparr> \<and>
         step isTemporary (Call (CallSetDeadline t)) s =
           Some (s\<lparr>lst := (lst s)\<lparr>deadline := Some t\<rparr>, caller := Returned (SetDeadlineRet None)\<rparr>) \<and>
         Accept_enter nw (fst (SetDeadline t l)) f =
           (if IsZero t then Accept_recv f else Accept_race (Add nw (Sub t nw)) f)"
  using assms
  by (auto simp: SetDeadline_def step_def do_call_def idle_def Accept_enter_def)

theorem SetDeadline_never_fails_witness:
  "idle (caller (spawn \<lparr>heartBeat = 50, wg = 1, doneCh = False, deadline = None\<rparr> 0)) \<and>
   map_option (\<lambda>s. (deadline (lst s), caller s))
     (run timeout_is_temporary [Call (CallSetDeadline 42), Call CallAccept]
       (spawn \<lparr>heartBeat = 50, wg = 1, doneCh = False, deadline = None\<rparr> 0))
   = Some (Some 42, Accept_race 42 Direct)"
proof -
  let ?s = "spawn \<lparr>heartBeat = 50, wg = 1, doneCh = False, deadline = None\<rparr> 0"
  have i: "idle (caller ?s)"
    by (simp add: spawn_def idle_def)
  from SetDeadline_never_fails [OF i, of 42 "lst ?s" "\<lambda>e. e = Errorf_ioTimeout" 0 Direct]
  show ?thesis using i
    by (simp add: exec_simps)
qed

section \<open>Close\<close>

text \<open>
  The bookkeeping of \<open>Close\<close> is kept by every step.
\<close>

lemma close_inv_spawn: "NewDTLSListener r b hb = Inr l \<Longrightarrow> close_inv (spawn l t0)"
  by (auto simp: NewDTLSListener_def spawn_def close_inv_def close_ok_def split: option.splits)

lemma close_ok_wg: "close_ok c w dn calls rets \<Longrightarrow> close_ok c (w - k) dn calls rets"
  by (auto simp: close_ok_def split: caller_pc.splits retval.splits)

lemma close_ok_move:
  "close_ok c w dn calls rets \<Longrightarrow> c \<noteq> Close_listener \<Longrightarrow> c \<noteq> Panicked \<Longrightarrow>
   \<not> in_close c' \<Longrightarrow> close_ok c' w' dn calls rets"
  by (auto simp: close_ok_def in_close_def split: caller_pc.splits retval.splits)

lemma close_ok_call:
  "close_ok c w dn calls rets \<Longrightarrow> idle c \<Longrightarrow>
   close_ok Close_listener w dn (calls @ [Millisecond * 100]) rets"
  by (auto simp: close_ok_def idle_def)

lemma close_ok_signal:
  "close_ok Close_listener w False calls rets \<Longrightarrow> close_ok (Close_wait e) w True calls (rets @ [e])"
  by (auto simp: close_ok_def)

lemma close_ok_panic:
  "close_ok Close_listener w dn calls rets \<Longrightarrow> dn \<Longrightarrow> close_ok Panicked w dn calls (rets @ [e])"
  by (auto simp: close_ok_def)

lemma close_ok_wait:
  "close_ok (Close_wait e) 0 dn calls rets \<Longrightarrow> close_ok (Returned (CloseRet e)) 0 dn calls rets"
  by (auto simp: close_ok_def)

lemma in_close_Accept_return [simp]: "\<not> in_close (Accept_return isT f r)"
  by (auto simp: in_close_def Accept_return_def AcceptWithContext_after_def
      split: frame.splits option.splits)

lemma in_close_Accept_enter [simp]: "\<not> in_close (Accept_enter nw l f)"
  by (auto simp: in_close_def Accept_enter_def Let_def)

lemma in_close_simps [simp]:
  "\<not> in_close Idle" "\<not> in_close AWC_loop" "\<not> in_close (Accept_recv f)"
  "\<not> in_close (Accept_race t f)" "\<not> in_close Panicked"
  "\<not> in_close (Returned (AcceptRet c e))" "\<not> in_close (Returned (AcceptWithContextRet c e))"
  "\<not> in_close (Returned (SetDeadlineRet e))"
  by (auto simp: in_close_def)

lemma close_inv_tick: "do_tick n s = Some s' \<Longrightarrow> close_inv s \<Longrightarrow> close_inv s'"
  by (auto simp: do_tick_def close_inv_def)

lemma close_inv_ctx: "do_ctx_fires e s = Some s' \<Longrightarrow> close_inv s \<Longrightarrow> close_inv s'"
  by (auto simp: do_ctx_fires_def close_inv_def split: if_splits)

lemma idle_not_Close_listener: "idle c \<Longrightarrow> c \<noteq> Close_listener \<and> c \<noteq> Panicked"
  by (auto simp: idle_def)

lemma close_inv_call: "do_call c s = Some s' \<Longrightarrow> close_inv s \<Longrightarrow> close_inv s'"
  by (cases c)
     (auto simp: do_call_def close_inv_def SetDeadline_def split: if_splits
        dest: idle_not_Close_listener intro: close_ok_move elim: close_ok_call)

lemma close_inv_awc: "do_AWC_iterate s = Some s' \<Longrightarrow> close_inv s \<Longrightarrow> close_inv s'"
  by (auto simp: do_AWC_iterate_def close_inv_def SetDeadline_def
        split: if_splits option.splits intro: close_ok_move)

lemma close_inv_timer: "do_timer isT s = Some s' \<Longrightarrow> close_inv s \<Longrightarrow> close_inv s'"
  by (auto simp: do_timer_def close_inv_def split: if_splits caller_pc.splits
        intro: close_ok_move)

lemma close_inv_handoff: "do_handoff isT s = Some s' \<Longrightarrow> close_inv s \<Longrightarrow> close_inv s'"
  by (auto simp: do_handoff_def close_inv_def pump_leave_def
      split: pump_pc.splits caller_pc.splits intro: close_ok_move)

lemma close_inv_close: "do_close_returns e s = Some s' \<Longrightarrow> close_inv s \<Longrightarrow> close_inv s'"
  by (auto simp: do_close_returns_def close_inv_def split: if_splits
      intro: close_ok_signal close_ok_panic)

lemma close_inv_wait: "do_wait_returns s = Some s' \<Longrightarrow> close_inv s \<Longrightarrow> close_inv s'"
  by (auto simp: do_wait_returns_def close_inv_def split: if_splits caller_pc.splits
      intro: close_ok_wait)

lemma close_inv_pcall: "do_pump_calls s = Some s' \<Longrightarrow> close_inv s \<Longrightarrow> close_inv s'"
  by (auto simp: do_pump_calls_def close_inv_def split: if_splits)

lemma close_inv_pret: "do_accept_returns d s = Some s' \<Longrightarrow> close_inv s \<Longrightarrow> close_inv s'"
  by (auto simp: do_accept_returns_def close_inv_def split: if_splits)

lemma close_inv_pdone: "do_pump_done s = Some s' \<Longrightarrow> close_inv s \<Longrightarrow> close_inv s'"
  by (auto simp: do_pump_done_def close_inv_def pump_leave_def
      split: if_splits pump_pc.splits intro: close_ok_wg)

lemma close_inv_step: "step isT ev s = Some s' \<Longrightarrow> close_inv s \<Longrightarrow> close_inv s'"
  by (cases ev)
     (auto simp: step_def split: if_splits
       intro: close_inv_tick close_inv_ctx close_inv_call close_inv_awc close_inv_timer
              close_inv_close close_inv_wait close_inv_pcall close_inv_pret close_inv_pdone
              close_inv_handoff)

lemma close_inv_run: "run isT evs s = Some s' \<Longrightarrow> close_inv s \<Longrightarrow> close_inv s'"
  by (induction evs arbitrary: s) (auto split: option.splits intro: close_inv_step)

text \<open>
  Once the done-signal is closed, a caller inside the transport's close can only panic.
\<close>

lemma stuck_step: "step isT ev s = Some s' \<Longrightarrow> stuck s \<Longrightarrow> stuck s'"
  by (cases ev)
     (auto simp: stuck_def step_def do_tick_def do_ctx_fires_def do_call_def do_AWC_iterate_def
        do_handoff_def do_timer_def do_close_returns_def do_wait_returns_def do_pump_calls_def
        do_accept_returns_def do_pump_done_def idle_def pump_leave_def
        split: if_splits pump_pc.splits)

lemma stuck_run: "run isT evs s = Some s' \<Longrightarrow> stuck s \<Longrightarrow> stuck s'"
  by (induction evs arbitrary: s) (auto split: option.splits intro: stuck_step)



text \<open>
  C10: a second call of \<open>Close\<close> on a handle whose earlier \<open>Close\<close> has returned never returns:
  when the transport's close comes back, \<open>close(l.doneCh)\<close> finds the channel closed and
  panics; until then the call is inside the transport's close.
\<close>

theorem second_Close_panics:
  assumes "NewDTLSListener r b hb = Inr l"
    and "run isTemporary evs (spawn l t0) = Some s"
    and "idle (caller s)"
    and "closeCalls s \<noteq> []"
  shows "map_option caller (run isTemporary [Call CallClose, Listener_close_returns m] s) = Some Panicked \<and>
         (run isTemporary (Call CallClose # evs') s = Some s' \<longrightarrow>
            caller s' = Close_listener \<or> caller s' = Panicked)"
proof -
  have c: "close_ok (caller s) (wg (lst s)) (doneCh (lst s)) (closeCalls s) (closeRets s)"
    using assms close_inv_run close_inv_spawn close_inv_def by blast
  with assms(3,4) have d: "doneCh (lst s)"
    by (auto simp: close_ok_def idle_def split: caller_pc.splits)
  from assms(3) have np: "caller s \<noteq> Panicked"
    by (auto simp: idle_def)
  have st: "step isTemporary (Call CallClose) s =
      Some (s\<lparr>caller := Close_listener, closeCalls := closeCalls s @ [Millisecond * 100]\<rparr>)"
    using assms(3) np by (simp add: step_def do_call_def)
  have 1: "map_option caller (run isTemporary [Call CallClose, Listener_close_returns m] s) = Some Panicked"
    using st d by (simp add: step_def do_close_returns_def)
  have 2: "caller s' = Close_listener \<or> caller s' = Panicked"
    if "run isTemporary (Call CallClose # evs') s = Some s'"
  proof -
    from that st have "run isTemporary evs'
        (s\<lparr>caller := Close_listener, closeCalls := closeCalls s @ [Millisecond * 100]\<rparr>) = Some s'"
      by simp
    moreover have "stuck (s\<lparr>caller := Close_listener, closeCalls := closeCalls s @ [Millisecond * 100]\<rparr>)"
      using d by (simp add: stuck_def)
    ultimately have "stuck s'" by (rule stuck_run)
    then show ?thesis by (simp add: stuck_def)
  qed
  from 1 2 show ?thesis by blast
qed

theorem second_Close_panics_witness:
  "NewDTLSListener None None 50 = Inr \<lparr>heartBeat = 50, wg = 1, doneCh = False, deadline = None\<rparr> \<and>
   map_option caller
     (run timeout_is_temporary
        [Pump_calls_accept, Call CallClose, Listener_close_returns None,
         Listener_accept_returns None (Some ''listener closed''), Pump_sees_done, Wait_returns]
        (spawn \<lparr>heartBeat = 50, wg = 1, doneCh = False, deadline = None\<rparr> 0))
   = Some (Returned (CloseRet None)) \<and>
   map_option caller
     (run timeout_is_temporary
        [Pump_calls_accept, Call CallClose, Listener_close_returns None,
         Listener_accept_returns None (Some ''listener closed''), Pump_sees_done, Wait_returns,
         Call CallClose, Listener_close_returns None]
        (spawn \<lparr>heartBeat = 50, wg = 1, doneCh = False, deadline = None\<rparr> 0))
   = Some Panicked"
proof -
  let ?l = "\<lparr>heartBeat = 50, wg = 1, doneCh = False, deadline = None\<rparr>"
  let ?evs = "[Pump_calls_accept, Call CallClose, Listener_close_returns None,
         Listener_accept_returns None (Some ''listener closed''), Pump_sees_done, Wait_returns]"
  have c: "NewDTLSListener None None 50 = Inr ?l"
    by (simp add: NewDTLSListener_def)
  obtain s where r: "run timeout_is_temporary ?evs (spawn ?l 0) = Some s"
    and v: "caller s = Returned (CloseRet None)" "closeCalls s \<noteq> []"
    by (simp add: exec_simps)
  from v have i: "idle (caller s)" by (simp add: idle_def)
  have app: "run f (xs @ ys) s0 = (case run f xs s0 of None \<Rightarrow> None | Some s1 \<Rightarrow> run f ys s1)"
    for f xs ys s0
    by (induction xs arbitrary: s0) (auto split: option.splits)
  from second_Close_panics [OF c r i v(2), of None]
  have "map_option caller (run timeout_is_temporary [Call CallClose, Listener_close_returns None] s)
        = Some Panicked"
    by simp
  with r have "map_option caller
     (run timeout_is_temporary (?evs @ [Call CallClose, Listener_close_returns None]) (spawn ?l 0))
     = Some Panicked"
    by (simp only: app option.case)
  with c r v show ?thesis by simp
qed

section \<open>AcceptWithContext\<close>


lemma awc_ok_Accept_return [simp]: "awc_ok isT (Accept_return isT f r) dn ce"
  by (auto simp: awc_ok_def Accept_return_def AcceptWithContext_after_def
      split: frame.splits option.splits)

lemma awc_ok_Accept_enter [simp]: "awc_ok isT (Accept_enter nw l f) dn ce"
  by (auto simp: awc_ok_def Accept_enter_def Let_def)

lemma awc_ok_simps [simp]:
  "awc_ok isT Idle dn ce" "awc_ok isT AWC_loop dn ce" "awc_ok isT Close_listener dn ce"
  "awc_ok isT (Close_wait e) dn ce" "awc_ok isT Panicked dn ce"
  "awc_ok isT (Returned (SetDeadlineRet e)) dn ce" "awc_ok isT (Returned (CloseRet e)) dn ce"
  "awc_ok isT (Returned (AcceptWithContextRet c None)) dn ce"
  "awc_ok isT (Returned (AcceptWithContextRet None (Some (Errorf cannot_accept y)))) True (Some y)"
  by (auto simp: awc_ok_def)





lemma run_append:
  "run isT (xs @ ys) s = (case run isT xs s of None \<Rightarrow> None | Some s' \<Rightarrow> run isT ys s')"
  by (induction xs arbitrary: s) (auto split: option.splits)

lemma run_run:
  "run isT xs s = Some s' \<Longrightarrow> run isT ys s' = Some s'' \<Longrightarrow> run isT (xs @ ys) s = Some s''"
  by (simp add: run_append)

text \<open>
  C1, as stated, fails: a context whose cancellation signal has fired reports a cause, for
  \<open>Err()\<close> is not nil once \<open>Done()\<close> is closed, and the code tests nothing but that. With
  an already cancelled context, \<open>Err()\<close> being \<open>context.Canceled\<close>, \<open>AcceptWithContext\<close>
  returns the wrapped error of line 75 and not (nil, nil).
\<close>

theorem AcceptWithContext_cancelled_context_counterexample:
  "map_option caller
     (run timeout_is_temporary
        [Ctx_fires (Some ''context canceled''), Call CallAcceptWithContext, AWC_iterate]
        (spawn \<lparr>heartBeat = 50, wg = 1, doneCh = False, deadline = None\<rparr> 0))
     = Some (Returned (AcceptWithContextRet None
               (Some (Errorf cannot_accept (Foreign ''context canceled'')))))"
  by (simp add: exec_simps)

text \<open>
  C1, amended: when the context's cancellation signal has already fired, \<open>AcceptWithContext\<close>
  returns at its first \<open>select\<close>, without a connection and without touching the deadline or
  the channel: with an error wrapping the cause whenever \<open>ctx.Err()\<close> is not nil, which is
  so for every cancelled or expired context of package \<open>context\<close>, and with no error only
  when \<open>ctx.Err()\<close> is nil.
\<close>

theorem AcceptWithContext_fired_context:
  assumes "idle (caller s)" and "ctxDone s"
  shows "(ctxErr s = None \<longrightarrow>
            run isTemporary [Call CallAcceptWithContext, AWC_iterate] s =
              Some (s\<lparr>caller := Returned (AcceptWithContextRet None None)\<rparr>)) \<and>
         (ctxErr s = Some e \<longrightarrow>
            run isTemporary [Call CallAcceptWithContext, AWC_iterate] s =
              Some (s\<lparr>caller := Returned (AcceptWithContextRet None (Some (Errorf cannot_accept e)))\<rparr>))"
  using assms
  by (auto simp: step_def do_call_def do_AWC_iterate_def idle_def split: caller_pc.splits)

theorem AcceptWithContext_fired_context_witness:
  "map_option (\<lambda>s. (idle (caller s), ctxDone s, ctxErr s))
     (run timeout_is_temporary [Tick 3, Ctx_fires (Some ''context deadline exceeded'')]
        (spawn \<lparr>heartBeat = 50, wg = 1, doneCh = False, deadline = None\<rparr> 0))
     = Some (True, True, Some (Foreign ''context deadline exceeded'')) \<and>
   map_option (\<lambda>s. (caller s, deadline (lst s)))
     (run timeout_is_temporary
        [Tick 3, Ctx_fires (Some ''context deadline exceeded''), Call CallAcceptWithContext,
         AWC_iterate]
        (spawn \<lparr>heartBeat = 50, wg = 1, doneCh = False, deadline = None\<rparr> 0))
     = Some (Returned (AcceptWithContextRet None
               (Some (Errorf cannot_accept (Foreign ''context deadline exceeded'')))), None) \<and>
   map_option (\<lambda>s. (idle (caller s), ctxDone s, ctxErr s))
     (run timeout_is_temporary [Ctx_fires None]
        (spawn \<lparr>heartBeat = 50, wg = 1, doneCh = False, deadline = None\<rparr> 0))
     = Some (True, True, None) \<and>
   map_option caller
     (run timeout_is_temporary [Ctx_fires None, Call CallAcceptWithContext, AWC_iterate]
        (spawn \<lparr>heartBeat = 50, wg = 1, doneCh = False, deadline = None\<rparr> 0))
     = Some (Returned (AcceptWithContextRet None None))"
proof -
  let ?s0 = "spawn \<lparr>heartBeat = 50, wg = 1, doneCh = False, deadline = None\<rparr> 0"
  let ?evs = "[Tick 3, Ctx_fires (Some ''context deadline exceeded'')]"
  let ?call = "[Call CallAcceptWithContext, AWC_iterate]"
  obtain s where r: "run timeout_is_temporary ?evs ?s0 = Some s"
    and v: "idle (caller s)" "ctxDone s" "ctxErr s = Some (Foreign ''context deadline exceeded'')"
      "deadline (lst s) = None"
    by (simp add: exec_simps)
  from AcceptWithContext_fired_context [OF v(1,2), of timeout_is_temporary
      "Foreign ''context deadline exceeded''"] v(3)
  have "run timeout_is_temporary ?call s =
      Some (s\<lparr>caller := Returned (AcceptWithContextRet None
               (Some (Errorf cannot_accept (Foreign ''context deadline exceeded''))))\<rparr>)"
    by blast
  with r have 1: "run timeout_is_temporary (?evs @ ?call) ?s0 =
      Some (s\<lparr>caller := Returned (AcceptWithContextRet None
               (Some (Errorf cannot_accept (Foreign ''context deadline exceeded''))))\<rparr>)"
    by (rule run_run)
  obtain u where r0: "run timeout_is_temporary [Ctx_fires None] ?s0 = Some u"
    and v0: "idle (caller u)" "ctxDone u" "ctxErr u = None"
    by (simp add: exec_simps)
  from AcceptWithContext_fired_context [OF v0(1,2), of timeout_is_temporary] v0(3)
  have "run timeout_is_temporary ?call u =
      Some (u\<lparr>caller := Returned (AcceptWithContextRet None None)\<rparr>)"
    by blast
  with r0 have 2: "run timeout_is_temporary ([Ctx_fires None] @ ?call) ?s0 =
      Some (u\<lparr>caller := Returned (AcceptWithContextRet None None)\<rparr>)"
    by (rule run_run)
  from 1 2 r v r0 v0 show ?thesis by simp
qed



section \<open>Accept\<close>

text \<open>
  While no further call is made, an \<open>Accept\<close> blocked in its one-case \<open>select\<close> stays there or
  has returned what the channel gave it.
\<close>

lemma recv_path_step:
  "step isT ev s = Some s' \<Longrightarrow> no_call ev \<Longrightarrow> recv_path s \<Longrightarrow> recv_path s'"
  by (cases ev)
     (auto simp: recv_path_def no_call_def Accept_result_def step_def do_tick_def do_ctx_fires_def
        do_AWC_iterate_def do_handoff_def do_timer_def do_close_returns_def do_wait_returns_def
        do_pump_calls_def do_accept_returns_def do_pump_done_def Accept_return_def
        split: if_splits pump_pc.splits)

lemma recv_path_run:
  "run isT evs s = Some s' \<Longrightarrow> list_all no_call evs \<Longrightarrow> recv_path s \<Longrightarrow> recv_path s'"
  by (induction evs arbitrary: s) (auto split: option.splits intro: recv_path_step)

lemma reachable_sent_foreign:
  assumes "NewDTLSListener r b hb = Inr l"
    and "run isT evs (spawn l t0) = Some s"
    and "d \<in> set (sent s)"
  shows "foreign_err (err d)"
proof -
  have "pump_inv s"
    using assms(1,2) pump_inv_run pump_inv_spawn by blast
  then have "set (sent s) \<subseteq> set (accepted s)"
    by (auto simp: pump_inv_def pump_ok_def)
  moreover have "foreign_inv s"
    using assms(2) by (rule foreign_inv_run) (simp add: foreign_inv_def spawn_def)
  ultimately show ?thesis
    using assms(3) by (auto simp: foreign_inv_def list_all_iff)
qed

lemma run_suffix:
  "run isT xs s = Some s' \<Longrightarrow> run isT (xs @ ys) s = Some s'' \<Longrightarrow> run isT ys s' = Some s''"
  by (simp add: run_append)

text \<open>
  C4: when the stored deadline is unset (never stored, or the zero instant), \<open>Accept\<close> blocks
  until the rendezvous channel yields a result and then returns the connection, or the
  pump's error; its timer case never fires and it never returns the timeout error.
\<close>

theorem Accept_without_deadline_blocks:
  assumes "NewDTLSListener r b hb = Inr l"
    and "run isTemporary evs (spawn l t0) = Some s"
    and "idle (caller s)"
    and "deadline (lst s) = None \<or> deadline (lst s) = Some 0"
    and "list_all no_call evs'"
    and "run isTemporary (Call CallAccept # evs') s = Some s'"
  shows "(caller s' = Accept_recv Direct \<or>
          (\<exists>d \<in> set (sent s').
             caller s' =
               Returned (AcceptRet (if err d = None then Some (NewConnDTLS (conn d)) else None) (err d)))) \<and>
         caller s' \<noteq> Returned (AcceptRet c (Some Errorf_ioTimeout)) \<and>
         step isTemporary Timer_fires s' = None \<and>
         (caller s' = Accept_recv Direct \<and> pump s' = Pump_select d' \<longrightarrow>
            map_option caller (step isTemporary Chan_handoff s') =
              Some (Returned (AcceptRet (if err d' = None then Some (NewConnDTLS (conn d')) else None)
                      (err d'))))"
proof -
  from assms(3) have np: "caller s \<noteq> Panicked"
    by (auto simp: idle_def)
  have st: "step isTemporary (Call CallAccept) s = Some (s\<lparr>caller := Accept_recv Direct\<rparr>)"
    using assms(3,4) np by (auto simp: step_def do_call_def Accept_enter_def IsZero_def)
  with assms(6) have r': "run isTemporary evs' (s\<lparr>caller := Accept_recv Direct\<rparr>) = Some s'"
    by simp
  then have p: "recv_path s'"
    using assms(5) by (rule recv_path_run) (simp add: recv_path_def)
  have full: "run isTemporary (evs @ Call CallAccept # evs') (spawn l t0) = Some s'"
    using assms(2,6) by (rule run_run)
  have res: "Accept_result d =
      Returned (AcceptRet (if err d = None then Some (NewConnDTLS (conn d)) else None) (err d))" for d
    by (simp add: Accept_result_def Accept_received_def)
  have 1: "caller s' = Accept_recv Direct \<or>
          (\<exists>d \<in> set (sent s').
             caller s' =
               Returned (AcceptRet (if err d = None then Some (NewConnDTLS (conn d)) else None) (err d)))"
    using p by (auto simp: recv_path_def res)
  have 2: "caller s' \<noteq> Returned (AcceptRet c (Some Errorf_ioTimeout))"
  proof
    assume a: "caller s' = Returned (AcceptRet c (Some Errorf_ioTimeout))"
    with p have ne: "sent s' \<noteq> []" and "err (last (sent s')) = Some Errorf_ioTimeout"
      by (auto simp: recv_path_def res split: if_splits)
    moreover from ne have "foreign_err (err (last (sent s')))"
      using reachable_sent_foreign [OF assms(1) full] by simp
    ultimately show False by (simp add: foreign_err_def)
  qed
  have 3: "step isTemporary Timer_fires s' = None"
    using p by (auto simp: recv_path_def res step_def do_timer_def)
  have 4: "map_option caller (step isTemporary Chan_handoff s') =
              Some (Returned (AcceptRet (if err d' = None then Some (NewConnDTLS (conn d')) else None)
                      (err d')))"
    if "caller s' = Accept_recv Direct" "pump s' = Pump_select d'"
    using that by (simp add: step_def do_handoff_def Accept_return_def Accept_received_def)
  from 1 2 3 4 show ?thesis by blast
qed

theorem Accept_without_deadline_blocks_witness:
  "NewDTLSListener None None 50 = Inr \<lparr>heartBeat = 50, wg = 1, doneCh = False, deadline = None\<rparr> \<and>
   map_option (\<lambda>s. (idle (caller s), deadline (lst s)))
     (run timeout_is_temporary [Call (CallSetDeadline 0)]
        (spawn \<lparr>heartBeat = 50, wg = 1, doneCh = False, deadline = None\<rparr> 1))
     = Some (True, Some 0) \<and>
   list_all no_call [Tick 1000000000000, Pump_calls_accept, Listener_accept_returns (Some 7) None,
      Chan_handoff] \<and>
   map_option caller
     (run timeout_is_temporary
        [Call (CallSetDeadline 0), Call CallAccept, Tick 1000000000000, Pump_calls_accept,
         Listener_accept_returns (Some 7) None, Chan_handoff]
        (spawn \<lparr>heartBeat = 50, wg = 1, doneCh = False, deadline = None\<rparr> 1))
     = Some (Returned (AcceptRet (Some (NewConnDTLS (Some 7))) None))"
proof -
  let ?l = "\<lparr>heartBeat = 50, wg = 1, doneCh = False, deadline = None\<rparr>"
  let ?evs' = "[Tick 1000000000000, Pump_calls_accept, Listener_accept_returns (Some 7) None,
      Chan_handoff]"
  have c: "NewDTLSListener None None 50 = Inr ?l"
    by (simp add: NewDTLSListener_def)
  obtain s where r: "run timeout_is_temporary [Call (CallSetDeadline 0)] (spawn ?l 1) = Some s"
    and v: "idle (caller s)" "deadline (lst s) = Some 0"
    by (simp add: exec_simps)
  have n: "list_all no_call ?evs'"
    by (simp add: no_call_def)
  obtain s' where full: "run timeout_is_temporary ([Call (CallSetDeadline 0)] @ Call CallAccept # ?evs')
      (spawn ?l 1) = Some s'"
    and v': "sent s' = [\<lparr>conn = Some 7, err = None\<rparr>]" "caller s' \<noteq> Accept_recv Direct"
    by (simp add: exec_simps)
  from r full have r': "run timeout_is_temporary (Call CallAccept # ?evs') s = Some s'"
    by (rule run_suffix)
  from Accept_without_deadline_blocks [OF c r v(1) disjI2 [OF v(2)] n r'] v'
  have "caller s' = Returned (AcceptRet (Some (NewConnDTLS (Some 7))) None)"
    by simp
  with full show ?thesis using c r v n by simp
qed

lemma Sub_nonpos: "t \<le> u \<Longrightarrow> Sub t u \<le> 0"
  by (simp add: Sub_def Let_def minDuration_def maxDuration_def)

text \<open>
  C5: when the stored deadline is set, \<open>Accept\<close> races the channel read against a timer of
  \<open>deadline.Sub(time.Now())\<close>; when the timer case is taken it returns the timeout error and
  leaves the pump, with any outcome it offers, as it was; and with a deadline equal to or
  earlier than the current instant the timer case is ready at once, without the clock
  moving.
\<close>

theorem Accept_with_deadline_races_timer:
  assumes "idle (caller s)"
    and "deadline (lst s) = Some dl"
    and "dl \<noteq> 0"
  shows "step isTemporary (Call CallAccept) s =
           Some (s\<lparr>caller := Accept_race (now s + Sub dl (now s)) Direct\<rparr>) \<and>
         run isTemporary [Call CallAccept, Tick n, Timer_fires] s =
           (if Sub dl (now s) \<le> int n
            then Some (s\<lparr>now := now s + int n,
                         caller := Returned (AcceptRet None (Some Errorf_ioTimeout))\<rparr>)
            else None) \<and>
         (pump s = Pump_select d \<longrightarrow>
            map_option caller (run isTemporary [Call CallAccept, Chan_handoff] s) =
              Some (Returned (AcceptRet (if err d = None then Some (NewConnDTLS (conn d)) else None)
                      (err d)))) \<and>
         (caller s1 = Accept_race t Direct \<longrightarrow>
            step isTemporary Timer_fires s1 =
              (if t \<le> now s1
               then Some (s1\<lparr>caller := Returned (AcceptRet None (Some Errorf_ioTimeout))\<rparr>)
               else None)) \<and>
         (dl \<le> now s \<longrightarrow>
            run isTemporary [Call CallAccept, Timer_fires] s =
              Some (s\<lparr>caller := Returned (AcceptRet None (Some Errorf_ioTimeout))\<rparr>))"
proof -
  from assms(1) have np: "caller s \<noteq> Panicked"
    by (auto simp: idle_def)
  have 1: "step isTemporary (Call CallAccept) s =
           Some (s\<lparr>caller := Accept_race (now s + Sub dl (now s)) Direct\<rparr>)"
    using assms np by (simp add: step_def do_call_def Accept_enter_def IsZero_def Add_def)
  have 2: "run isTemporary [Call CallAccept, Tick n, Timer_fires] s =
           (if Sub dl (now s) \<le> int n
            then Some (s\<lparr>now := now s + int n,
                         caller := Returned (AcceptRet None (Some Errorf_ioTimeout))\<rparr>)
            else None)"
    using 1 by (simp add: step_def do_tick_def do_timer_def Accept_return_def Accept_timeout_def)
  have 3: "map_option caller (run isTemporary [Call CallAccept, Chan_handoff] s) =
              Some (Returned (AcceptRet (if err d = None then Some (NewConnDTLS (conn d)) else None)
                      (err d)))"
    if "pump s = Pump_select d"
    using 1 that by (simp add: step_def do_handoff_def Accept_return_def Accept_received_def)
  have 4: "step isTemporary Timer_fires s1 =
              (if t \<le> now s1
               then Some (s1\<lparr>caller := Returned (AcceptRet None (Some Errorf_ioTimeout))\<rparr>)
               else None)"
    if "caller s1 = Accept_race t Direct"
    using that by (simp add: step_def do_timer_def Accept_return_def Accept_timeout_def)
  have 5: "run isTemporary [Call CallAccept, Timer_fires] s =
              Some (s\<lparr>caller := Returned (AcceptRet None (Some Errorf_ioTimeout))\<rparr>)"
    if "dl \<le> now s"
    using 1 Sub_nonpos [OF that]
    by (simp add: step_def do_timer_def Accept_return_def Accept_timeout_def)
  from 1 2 3 4 5 show ?thesis by blast
qed

theorem Accept_with_deadline_races_timer_witness:
  "map_option (\<lambda>s. (idle (caller s), deadline (lst s), now s, pump s))
     (run timeout_is_temporary
        [Call (CallSetDeadline 7), Pump_calls_accept, Listener_accept_returns (Some 3) None, Tick 6]
        (spawn \<lparr>heartBeat = 50, wg = 1, doneCh = False, deadline = None\<rparr> 1))
     = Some (True, Some 7, 7, Pump_select \<lparr>conn = Some 3, err = None\<rparr>) \<and>
   map_option (\<lambda>s. (caller s, pump s))
     (run timeout_is_temporary
        [Call (CallSetDeadline 7), Pump_calls_accept, Listener_accept_returns (Some 3) None, Tick 6,
         Call CallAccept, Timer_fires]
        (spawn \<lparr>heartBeat = 50, wg = 1, doneCh = False, deadline = None\<rparr> 1))
     = Some (Returned (AcceptRet None (Some Errorf_ioTimeout)),
             Pump_select \<lparr>conn = Some 3, err = None\<rparr>)"
proof -
  let ?s0 = "spawn \<lparr>heartBeat = 50, wg = 1, doneCh = False, deadline = None\<rparr> 1"
  let ?evs = "[Call (CallSetDeadline 7), Pump_calls_accept, Listener_accept_returns (Some 3) None, Tick 6]"
  obtain s where r: "run timeout_is_temporary ?evs ?s0 = Some s"
    and v: "idle (caller s)" "deadline (lst s) = Some 7" "now s = 7"
      "pump s = Pump_select \<lparr>conn = Some 3, err = None\<rparr>"
    by (simp add: exec_simps)
  have nz: "(7::int) \<noteq> 0" by simp
  have le: "7 \<le> now s" using v(3) by simp
  from Accept_with_deadline_races_timer [OF v(1,2) nz, of timeout_is_temporary] le
  have "run timeout_is_temporary [Call CallAccept, Timer_fires] s =
      Some (s\<lparr>caller := Returned (AcceptRet None (Some Errorf_ioTimeout))\<rparr>)"
    by blast
  with r have "run timeout_is_temporary (?evs @ [Call CallAccept, Timer_fires]) ?s0 =
      Some (s\<lparr>caller := Returned (AcceptRet None (Some Errorf_ioTimeout))\<rparr>)"
    by (rule run_run)
  with r v show ?thesis by simp
qed

text \<open>
  After the pump has returned, an \<open>Accept\<close> in its \<open>select\<close> can only time out.
\<close>

lemma after_exit_step:
  assumes "step isT ev s = Some s'" and "no_call ev" and "after_exit c0 snt s"
    and "c0 = Accept_recv Direct \<or> c0 = Accept_race t Direct"
  shows "after_exit c0 snt s'"
  using assms
  by (cases ev)
     (auto simp: after_exit_def no_call_def step_def do_tick_def do_ctx_fires_def
        do_AWC_iterate_def do_handoff_def do_timer_def do_close_returns_def do_wait_returns_def
        do_pump_calls_def do_accept_returns_def do_pump_done_def Accept_return_def
        Accept_timeout_def
        split: if_splits)

lemma after_exit_run:
  assumes "run isT evs s = Some s'" and "list_all no_call evs" and "after_exit c0 snt s"
    and "c0 = Accept_recv Direct \<or> c0 = Accept_race t Direct"
  shows "after_exit c0 snt s'"
  using assms
  by (induction evs arbitrary: s) (auto split: option.splits intro: after_exit_step)

lemma Accept_enter_cases:
  "Accept_enter nw l f =
     (if deadline l = None \<or> deadline l = Some 0 then Accept_recv f
      else Accept_race (nw + Sub (the (deadline l)) nw) f)"
  by (auto simp: Accept_enter_def IsZero_def Add_def split: option.splits)

text \<open>
  C2, as stated, fails: the pump sends the error of the transport's accept once. The first
  \<open>Accept\<close> returns it; the next \<open>Accept\<close>, with the same deadline, returns the timeout error.
\<close>

theorem fatal_error_delivered_once_counterexample:
  "map_option caller
     (run timeout_is_temporary
        [Pump_calls_accept, Listener_accept_returns None (Some ''listener closed''),
         Call (CallSetDeadline 5), Call CallAccept, Chan_handoff]
        (spawn \<lparr>heartBeat = 50, wg = 1, doneCh = False, deadline = None\<rparr> 1))
     = Some (Returned (AcceptRet None (Some (Foreign ''listener closed'')))) \<and>
   map_option caller
     (run timeout_is_temporary
        [Pump_calls_accept, Listener_accept_returns None (Some ''listener closed''),
         Call (CallSetDeadline 5), Call CallAccept, Chan_handoff,
         Call CallAccept, Tick 4, Timer_fires]
        (spawn \<lparr>heartBeat = 50, wg = 1, doneCh = False, deadline = None\<rparr> 1))
     = Some (Returned (AcceptRet None (Some Errorf_ioTimeout)))"
  by (simp add: exec_simps)

text \<open>
  C2, amended: after the transport's accept returned an error, the \<open>Accept\<close> call that
  receives it from the rendezvous channel returns that error, which is not the timeout
  error, and the pump terminates with that handoff. An \<open>Accept\<close> call made after it finds
  the pump terminated and nothing more sent: it stays blocked or returns the timeout
  error, and without a deadline it stays blocked.
\<close>

theorem fatal_error_delivered_once:
  assumes "NewDTLSListener r b hb = Inr l"
    and "run isTemporary evs (spawn l t0) = Some s"
  shows "(pump s = Pump_select d \<and> err d = Some e \<and>
          (caller s = Accept_recv Direct \<or> caller s = Accept_race t Direct) \<longrightarrow>
            map_option caller (step isTemporary Chan_handoff s) =
              Some (Returned (AcceptRet None (Some e))) \<and>
            map_option pump (step isTemporary Chan_handoff s) = Some Pump_exit \<and>
            e \<noteq> Errorf_ioTimeout) \<and>
         (list_ex (\<lambda>d. err d \<noteq> None) (sent s) \<and> idle (caller s) \<and> list_all no_call evs' \<and>
          run isTemporary (Call CallAccept # evs') s = Some s' \<longrightarrow>
            pump s' = Pump_exit \<and> sent s' = sent s \<and>
            (caller s' = Accept_enter (now s) (lst s) Direct \<or>
             caller s' = Returned (AcceptRet None (Some Errorf_ioTimeout))) \<and>
            (deadline (lst s) = None \<or> deadline (lst s) = Some 0 \<longrightarrow>
               caller s' = Accept_recv Direct))"
proof -
  have inv: "pump_inv s"
    using assms pump_inv_run pump_inv_spawn by blast
  have fi: "foreign_inv s"
    using assms(2) by (rule foreign_inv_run) (simp add: foreign_inv_def spawn_def)
  have 1: "map_option caller (step isTemporary Chan_handoff s) =
              Some (Returned (AcceptRet None (Some e))) \<and>
            map_option pump (step isTemporary Chan_handoff s) = Some Pump_exit \<and>
            e \<noteq> Errorf_ioTimeout"
    if a: "pump s = Pump_select d" "err d = Some e"
      "caller s = Accept_recv Direct \<or> caller s = Accept_race t Direct"
  proof -
    from inv a(1) have "d \<in> set (accepted s)"
      by (simp add: pump_inv_def pump_ok_def)
    with fi have "foreign_err (err d)"
      by (simp add: foreign_inv_def list_all_iff)
    with a(2) have "e \<noteq> Errorf_ioTimeout"
      by (auto simp: foreign_err_def)
    with a show ?thesis
      by (auto simp: step_def do_handoff_def Accept_return_def Accept_received_def
          acceptLoop_sent_def)
  qed
  have 2: "pump s' = Pump_exit \<and> sent s' = sent s \<and>
            (caller s' = Accept_enter (now s) (lst s) Direct \<or>
             caller s' = Returned (AcceptRet None (Some Errorf_ioTimeout))) \<and>
            (deadline (lst s) = None \<or> deadline (lst s) = Some 0 \<longrightarrow>
               caller s' = Accept_recv Direct)"
    if b: "list_ex (\<lambda>d. err d \<noteq> None) (sent s)" "idle (caller s)" "list_all no_call evs'"
      "run isTemporary (Call CallAccept # evs') s = Some s'"
  proof -
    let ?c0 = "Accept_enter (now s) (lst s) Direct"
    from inv have "pump_ok (wg (lst s)) (pump s) (acceptCalls s) (accepted s) (sent s) (abandoned s)"
      by (simp add: pump_inv_def)
    from pump_ok_error_sent [OF this] b(1) have ex: "pump s = Pump_exit"
      by simp
    from b(2) have np: "caller s \<noteq> Panicked"
      by (auto simp: idle_def)
    with b(2) have "step isTemporary (Call CallAccept) s = Some (s\<lparr>caller := ?c0\<rparr>)"
      by (simp add: step_def do_call_def)
    with b(4) have r': "run isTemporary evs' (s\<lparr>caller := ?c0\<rparr>) = Some s'"
      by simp
    have c0: "?c0 = Accept_recv Direct \<or>
        ?c0 = Accept_race (now s + Sub (the (deadline (lst s))) (now s)) Direct"
      by (simp add: Accept_enter_cases)
    have "after_exit ?c0 (sent s) (s\<lparr>caller := ?c0\<rparr>)"
      using ex by (simp add: after_exit_def)
    with r' b(3) have ae: "after_exit ?c0 (sent s) s'"
      using c0 by (rule after_exit_run)
    then have "pump s' = Pump_exit" "sent s' = sent s"
      "caller s' = ?c0 \<or> caller s' = Returned (AcceptRet None (Some Errorf_ioTimeout))"
      by (auto simp: after_exit_def split: caller_pc.splits)
    moreover have "caller s' = Accept_recv Direct"
      if "deadline (lst s) = None \<or> deadline (lst s) = Some 0"
      using ae that by (auto simp: after_exit_def Accept_enter_cases)
    ultimately show ?thesis by blast
  qed
  from 1 2 show ?thesis by blast
qed

theorem fatal_error_delivered_once_witness:
  "NewDTLSListener None None 50 = Inr \<lparr>heartBeat = 50, wg = 1, doneCh = False, deadline = None\<rparr> \<and>
   map_option (\<lambda>s. (list_ex (\<lambda>d. err d \<noteq> None) (sent s), idle (caller s)))
     (run timeout_is_temporary
        [Pump_calls_accept, Listener_accept_returns None (Some ''listener closed''),
         Call (CallSetDeadline 5), Call CallAccept, Chan_handoff]
        (spawn \<lparr>heartBeat = 50, wg = 1, doneCh = False, deadline = None\<rparr> 1))
     = Some (True, True) \<and>
   list_all no_call [Tick 4, Timer_fires] \<and>
   map_option (\<lambda>s. (caller s, pump s))
     (run timeout_is_temporary
        [Pump_calls_accept, Listener_accept_returns None (Some ''listener closed''),
         Call (CallSetDeadline 5), Call CallAccept, Chan_handoff,
         Call CallAccept, Tick 4, Timer_fires]
        (spawn \<lparr>heartBeat = 50, wg = 1, doneCh = False, deadline = None\<rparr> 1))
     = Some (Returned (AcceptRet None (Some Errorf_ioTimeout)), Pump_exit)"
proof -
  let ?l = "\<lparr>heartBeat = 50, wg = 1, doneCh = False, deadline = None\<rparr>"
  let ?evs = "[Pump_calls_accept, Listener_accept_returns None (Some ''listener closed''),
         Call (CallSetDeadline 5), Call CallAccept, Chan_handoff]"
  have c: "NewDTLSListener None None 50 = Inr ?l"
    by (simp add: NewDTLSListener_def)
  obtain s where r: "run timeout_is_temporary ?evs (spawn ?l 1) = Some s"
    and v: "list_ex (\<lambda>d. err d \<noteq> None) (sent s)" "idle (caller s)"
    by (simp add: exec_simps)
  have n: "list_all no_call [Tick 4, Timer_fires]"
    by (simp add: no_call_def)
  obtain s' where full: "run timeout_is_temporary (?evs @ Call CallAccept # [Tick 4, Timer_fires])
      (spawn ?l 1) = Some s'"
    and v': "caller s' = Returned (AcceptRet None (Some Errorf_ioTimeout))"
    by (simp add: exec_simps)
  from r full have r': "run timeout_is_temporary (Call CallAccept # [Tick 4, Timer_fires]) s = Some s'"
    by (rule run_suffix)
  from fatal_error_delivered_once [OF c r, of _ _ _ "[Tick 4, Timer_fires]" s'] v n r'
  have "pump s' = Pump_exit"
    by blast
  with full v' show ?thesis using c r v n by simp
qed

text \<open>
  The stored deadline changes only in \<open>SetDeadline\<close>.
\<close>

lemma keeps_deadline_step:
  "step isT ev s = Some s' \<Longrightarrow> keeps_deadline ev \<Longrightarrow> deadline (lst s') = deadline (lst s)"
  by (cases ev)
     (auto simp: keeps_deadline_def step_def do_tick_def do_ctx_fires_def do_call_def
        do_handoff_def do_timer_def do_close_returns_def do_wait_returns_def
        do_pump_calls_def do_accept_returns_def do_pump_done_def pump_leave_def
        split: if_splits pump_pc.splits caller_pc.splits call.splits)

lemma keeps_deadline_run:
  "run isT evs s = Some s' \<Longrightarrow> list_all keeps_deadline evs \<Longrightarrow>
   deadline (lst s') = deadline (lst s)"
  by (induction evs arbitrary: s) (auto split: option.splits dest: keeps_deadline_step)

lemma past_deadline_step:
  "step isT ev s = Some s' \<Longrightarrow> no_call ev \<Longrightarrow> past_deadline dl t s \<Longrightarrow> past_deadline dl t s'"
  by (cases ev)
     (auto simp: past_deadline_def no_call_def Accept_result_def step_def do_tick_def
        do_ctx_fires_def do_AWC_iterate_def do_handoff_def do_timer_def do_close_returns_def
        do_wait_returns_def do_pump_calls_def do_accept_returns_def do_pump_done_def
        Accept_return_def Accept_timeout_def pump_leave_def
        split: if_splits pump_pc.splits caller_pc.splits)

lemma past_deadline_run:
  "run isT evs s = Some s' \<Longrightarrow> list_all no_call evs \<Longrightarrow> past_deadline dl t s \<Longrightarrow>
   past_deadline dl t s'"
  by (induction evs arbitrary: s) (auto split: option.splits intro: past_deadline_step)

text \<open>
  C9, as stated, fails in its second half: with the deadline at instant 5 and the clock at
  10, an \<open>Accept\<close> returns the timeout error, the pump then offers a connection, and the
  next \<open>Accept\<close>, the deadline still 5, returns that connection and not a timeout error.
\<close>

theorem Accept_after_deadline_counterexample:
  "map_option (deadline \<circ> lst)
     (run timeout_is_temporary
        [Call (CallSetDeadline 5), Tick 9, Call CallAccept, Timer_fires,
         Pump_calls_accept, Listener_accept_returns (Some 7) None]
        (spawn \<lparr>heartBeat = 50, wg = 1, doneCh = False, deadline = None\<rparr> 1))
     = Some (Some 5) \<and>
   map_option now
     (run timeout_is_temporary
        [Call (CallSetDeadline 5), Tick 9, Call CallAccept, Timer_fires,
         Pump_calls_accept, Listener_accept_returns (Some 7) None]
        (spawn \<lparr>heartBeat = 50, wg = 1, doneCh = False, deadline = None\<rparr> 1))
     = Some 10 \<and>
   map_option caller
     (run timeout_is_temporary
        [Call (CallSetDeadline 5), Tick 9, Call CallAccept, Timer_fires,
         Pump_calls_accept, Listener_accept_returns (Some 7) None,
         Call CallAccept, Chan_handoff]
        (spawn \<lparr>heartBeat = 50, wg = 1, doneCh = False, deadline = None\<rparr> 1))
     = Some (Returned (AcceptRet (Some (NewConnDTLS (Some 7))) None))"
  by (simp add: exec_simps)

text \<open>
  C9, amended: \<open>Accept\<close> never modifies the stored deadline, which persists over every event
  other than a \<open>SetDeadline\<close> call or an iteration of \<open>AcceptWithContext\<close>; after the deadline
  instant has passed, a further \<open>Accept\<close> call has its timer case ready at once, so it can
  return the timeout error immediately and never blocks: it returns the timeout error or
  a result the pump offers on the rendezvous channel.
\<close>

theorem Accept_keeps_deadline:
  assumes "idle (caller s)"
    and "deadline (lst s) = Some dl"
    and "dl \<noteq> 0"
    and "dl \<le> now s"
    and "list_all no_call evs'"
    and "run isTemporary (Call CallAccept # evs') s = Some s'"
  shows "deadline (lst s') = Some dl \<and>
         (caller s' = Returned (AcceptRet None (Some Errorf_ioTimeout)) \<or>
          (\<exists>d \<in> set (sent s').
             caller s' =
               Returned (AcceptRet (if err d = None then Some (NewConnDTLS (conn d)) else None) (err d))) \<or>
          (caller s' = Accept_race (now s + Sub dl (now s)) Direct \<and>
           step isTemporary Timer_fires s' =
             Some (s'\<lparr>caller := Returned (AcceptRet None (Some Errorf_ioTimeout))\<rparr>))) \<and>
         run isTemporary [Call CallAccept, Timer_fires] s =
           Some (s\<lparr>caller := Returned (AcceptRet None (Some Errorf_ioTimeout))\<rparr>) \<and>
         (list_all keeps_deadline evs \<and> run isTemporary evs s0 = Some s1 \<longrightarrow>
            deadline (lst s1) = deadline (lst s0))"
proof -
  let ?t = "now s + Sub dl (now s)"
  from assms(1) have np: "caller s \<noteq> Panicked"
    by (auto simp: idle_def)
  have le: "?t \<le> now s"
    using Sub_nonpos [OF assms(4)] by simp
  have st: "step isTemporary (Call CallAccept) s = Some (s\<lparr>caller := Accept_race ?t Direct\<rparr>)"
    using assms(1,2,3) np by (simp add: step_def do_call_def Accept_enter_def IsZero_def Add_def)
  with assms(6) have r': "run isTemporary evs' (s\<lparr>caller := Accept_race ?t Direct\<rparr>) = Some s'"
    by simp
  have "past_deadline (Some dl) ?t (s\<lparr>caller := Accept_race ?t Direct\<rparr>)"
    using assms(2) le by (simp add: past_deadline_def)
  with r' assms(5) have p: "past_deadline (Some dl) ?t s'"
    by (rule past_deadline_run)
  have res: "Accept_result d =
      Returned (AcceptRet (if err d = None then Some (NewConnDTLS (conn d)) else None) (err d))" for d
    by (simp add: Accept_result_def Accept_received_def)
  have 1: "deadline (lst s') = Some dl"
    using p by (simp add: past_deadline_def)
  have 2: "caller s' = Returned (AcceptRet None (Some Errorf_ioTimeout)) \<or>
          (\<exists>d \<in> set (sent s').
             caller s' =
               Returned (AcceptRet (if err d = None then Some (NewConnDTLS (conn d)) else None) (err d))) \<or>
          (caller s' = Accept_race (now s + Sub dl (now s)) Direct \<and>
           step isTemporary Timer_fires s' =
             Some (s'\<lparr>caller := Returned (AcceptRet None (Some Errorf_ioTimeout))\<rparr>))"
  proof (cases "caller s' = Accept_race ?t Direct")
    case True
    with p have "?t \<le> now s'"
      by (simp add: past_deadline_def res)
    with True show ?thesis
      by (simp add: step_def do_timer_def Accept_return_def Accept_timeout_def)
  next
    case False
    with p have "caller s' = Returned (AcceptRet None (Some Errorf_ioTimeout)) \<or>
        (sent s' \<noteq> [] \<and> caller s' = Accept_result (last (sent s')))"
      by (auto simp: past_deadline_def)
    then show ?thesis
      by (auto simp: res)
  qed
  have 3: "run isTemporary [Call CallAccept, Timer_fires] s =
           Some (s\<lparr>caller := Returned (AcceptRet None (Some Errorf_ioTimeout))\<rparr>)"
    using st le by (simp add: step_def do_timer_def Accept_return_def Accept_timeout_def)
  have 4: "deadline (lst s1) = deadline (lst s0)"
    if "list_all keeps_deadline evs" "run isTemporary evs s0 = Some s1"
    using that(2,1) by (rule keeps_deadline_run)
  from 1 2 3 4 show ?thesis by blast
qed

theorem Accept_keeps_deadline_witness:
  "map_option (\<lambda>s. (idle (caller s), deadline (lst s), now s))
     (run timeout_is_temporary [Call (CallSetDeadline 5), Tick 9]
        (spawn \<lparr>heartBeat = 50, wg = 1, doneCh = False, deadline = None\<rparr> 1))
     = Some (True, Some 5, 10) \<and>
   list_all no_call [Pump_calls_accept, Timer_fires] \<and>
   map_option (\<lambda>s. (caller s, deadline (lst s)))
     (run timeout_is_temporary
        [Call (CallSetDeadline 5), Tick 9, Call CallAccept, Pump_calls_accept, Timer_fires]
        (spawn \<lparr>heartBeat = 50, wg = 1, doneCh = False, deadline = None\<rparr> 1))
     = Some (Returned (AcceptRet None (Some Errorf_ioTimeout)), Some 5)"
proof -
  let ?s0 = "spawn \<lparr>heartBeat = 50, wg = 1, doneCh = False, deadline = None\<rparr> 1"
  let ?evs = "[Call (CallSetDeadline 5), Tick 9]"
  let ?evs' = "[Pump_calls_accept, Timer_fires]"
  obtain s where r: "run timeout_is_temporary ?evs ?s0 = Some s"
    and v: "idle (caller s)" "deadline (lst s) = Some 5" "now s = 10"
    by (simp add: exec_simps)
  have nz: "(5::int) \<noteq> 0" by simp
  have le: "5 \<le> now s" using v(3) by simp
  have n: "list_all no_call ?evs'"
    by (simp add: no_call_def)
  obtain s' where full: "run timeout_is_temporary (?evs @ Call CallAccept # ?evs') ?s0 = Some s'"
    and v': "caller s' = Returned (AcceptRet None (Some Errorf_ioTimeout))"
    by (simp add: exec_simps)
  from r full have r': "run timeout_is_temporary (Call CallAccept # ?evs') s = Some s'"
    by (rule run_suffix)
  from Accept_keeps_deadline [OF v(1,2) nz le n r']
  have "deadline (lst s') = Some 5"
    by blast
  with full v' show ?thesis using r v n by simp
qed

end
